theory Spec2Isabelle
  imports Main "HOL-Library.AList"
begin

section \<open>JavaScript strings\<close>

text \<open>
  A JavaScript string is a sequence of UTF-16 code units and \<open>length\<close> counts them.
  The model is \<^typ>\<open>string\<close>: one \<^typ>\<open>char\<close> stands for one code unit with a value
  below 256 (the Latin-1 range, which contains every character the username and room
  patterns accept). The built-ins are modelled on that range.
\<close>

text \<open>
  \<open>String.prototype.trim\<close> strips WhiteSpace and LineTerminator code points from both
  ends; below 256 these are TAB, LF, VT, FF, CR, SP and NBSP.
\<close>

definition isWhiteSpace :: "char \<Rightarrow> bool" where
  "isWhiteSpace c = (of_char c \<in> {9, 10, 11, 12, 13, 32, 160 :: nat})"

definition trim :: "string \<Rightarrow> string" where
  "trim s = rev (dropWhile isWhiteSpace (rev (dropWhile isWhiteSpace s)))"

text \<open>
  \<open>String.prototype.toLowerCase\<close>: below 256 the upper-case letters are \<open>A-Z\<close>,
  \<open>U+00C0-U+00D6\<close> and \<open>U+00D8-U+00DE\<close>; each maps to the code unit 32 above it.
\<close>

definition toLowerCaseChar :: "char \<Rightarrow> char" where
  "toLowerCaseChar c =
     (let n = of_char c :: nat
      in if (65 \<le> n \<and> n \<le> 90) \<or> (192 \<le> n \<and> n \<le> 214) \<or> (216 \<le> n \<and> n \<le> 222)
         then char_of (n + 32) else c)"

definition toLowerCase :: "string \<Rightarrow> string" where
  "toLowerCase s = map toLowerCaseChar s"

text \<open>
  \<open>val.replace(/c/g, r)\<close> for a single literal character \<open>c\<close> and a replacement \<open>r\<close>
  without \<open>$\<close> patterns: every occurrence of \<open>c\<close> becomes \<open>r\<close>.
\<close>

definition replaceAll :: "char \<Rightarrow> string \<Rightarrow> string \<Rightarrow> string" where
  "replaceAll c r s = concat (map (\<lambda>x. if x = c then r else [x]) s)"

text \<open>The character classes \<open>[a-zA-Z0-9_-]\<close> and \<open>[a-zA-Z0-9_\- ]\<close>.\<close>

definition isUsernameChar :: "char \<Rightarrow> bool" where
  "isUsernameChar c =
     (let n = of_char c :: nat
      in (97 \<le> n \<and> n \<le> 122) \<or> (65 \<le> n \<and> n \<le> 90) \<or> (48 \<le> n \<and> n \<le> 57)
         \<or> c = CHR ''_'' \<or> c = CHR ''-'')"

definition isRoomChar :: "char \<Rightarrow> bool" where
  "isRoomChar c = (isUsernameChar c \<or> c = CHR '' '')"

text \<open>\<open>/^[class]+$/.test(s)\<close>: the string is not empty and every character is in the class.\<close>

definition matchesPlus :: "(char \<Rightarrow> bool) \<Rightarrow> string \<Rightarrow> bool" where
  "matchesPlus cls s = (case s of [] \<Rightarrow> False | _ # _ \<Rightarrow> list_all cls s)"

section \<open>Validation schemas (src/validation/schemas.ts)\<close>

text \<open>
  A schema maps its input to the list of issue messages (\<open>Inl\<close>, in the order zod records
  them: the checks of one string schema run in the order they are chained and all of them
  run) or to the parsed data (\<open>Inr\<close>). A transform chained after the checks runs only when
  no check failed.
\<close>

type_synonym 'a parsed = "string list + 'a"

definition usernameSchema :: "string \<Rightarrow> string parsed" where
  "usernameSchema raw =
     (let val = trim raw;
          issues =
            (if length val < 2 then [''Username must be at least 2 characters''] else []) @
            (if length val > 20 then [''Username must be at most 20 characters''] else []) @
            (if matchesPlus isUsernameChar val then []
             else [''Username can only contain letters, numbers, underscores, and hyphens''])
      in if issues = [] then Inr val else Inl issues)"

definition roomSchema :: "string \<Rightarrow> string parsed" where
  "roomSchema val =
     (let issues =
            (if length val < 1 then [''Room name is required''] else []) @
            (if length val > 50 then [''Room name must be at most 50 characters''] else []) @
            (if matchesPlus isRoomChar val then []
             else [''Room name can only contain letters, numbers, spaces, underscores, and hyphens''])
      in if issues = [] then Inr (trim val) else Inl issues)"

definition sanitize :: "string \<Rightarrow> string" where
  "sanitize val =
     replaceAll (CHR 0x27) ''&#x27;''
       (replaceAll (CHR 0x22) ''&quot;''
         (replaceAll (CHR ''>'') ''&gt;''
           (replaceAll (CHR ''<'') ''&lt;'' val)))"

definition messageSchema :: "string \<Rightarrow> string parsed" where
  "messageSchema val =
     (let issues =
            (if length val < 1 then [''Message cannot be empty''] else []) @
            (if length val > 1000 then [''Message must be at most 1000 characters''] else [])
      in if issues = [] then Inr (sanitize (trim val)) else Inl issues)"

text \<open>
  The object schema parses \<open>username\<close>, then \<open>room\<close>; the issues of both fields are
  collected in that order. The payload \<open>{ username, room }\<close> is the pair
  \<open>(username, room)\<close>.
\<close>

definition issuesOf :: "'a parsed \<Rightarrow> string list" where
  "issuesOf r = (case r of Inl issues \<Rightarrow> issues | Inr _ \<Rightarrow> [])"

definition joinRoomSchema :: "string \<times> string \<Rightarrow> (string \<times> string) parsed" where
  "joinRoomSchema data =
     (let u = usernameSchema (fst data); r = roomSchema (snd data)
      in case u of
           Inr username \<Rightarrow>
             (case r of Inr room \<Rightarrow> Inr (username, room) | Inl issues \<Rightarrow> Inl issues)
         | Inl issues \<Rightarrow> Inl (issues @ issuesOf r))"

text \<open>
  \<open>validate(schema, data)\<close>: the failure carries a \<open>ValidationError\<close> whose message is
  that of the first issue; the model keeps the message.
\<close>

definition validate :: "('i \<Rightarrow> 'a parsed) \<Rightarrow> 'i \<Rightarrow> string + 'a" where
  "validate schema data =
     (case schema data of
        Inl issues \<Rightarrow>
          Inl (case issues of [] \<Rightarrow> ''Validation failed'' | firstError # _ \<Rightarrow> firstError)
      | Inr d \<Rightarrow> Inr d)"

text \<open>The three validators of the specification, as the handlers call them.\<close>

definition validateName :: "string \<Rightarrow> string + string" where
  "validateName raw = validate usernameSchema raw"

definition validateRoom :: "string \<Rightarrow> string + string" where
  "validateRoom raw = validate roomSchema raw"

definition validateMessage :: "string \<Rightarrow> string + string" where
  "validateMessage raw = validate messageSchema raw"

section \<open>Errors (src/types/errors.ts)\<close>

datatype ErrorCode =
    VALIDATION_ERROR | INVALID_USERNAME | INVALID_ROOM | INVALID_MESSAGE
  | USERNAME_TAKEN | USER_NOT_FOUND | USER_NOT_IN_ROOM
  | ROOM_NOT_FOUND | ROOM_FULL
  | RATE_LIMIT_EXCEEDED
  | INTERNAL_ERROR | CONNECTION_ERROR

record UserError =
  message :: string
  code :: ErrorCode

section \<open>The user store and the user service (src/services/user.service.ts)\<close>

record User =
  id' :: string
  username :: string
  room :: string

text \<open>
  A JavaScript \<open>Map\<close> keeps its entries in insertion order: \<open>set\<close> on a key that is
  present replaces the value in place, \<open>set\<close> on a new key appends the entry, \<open>delete\<close>
  removes it. The model is an association list with \<^const>\<open>AList.update\<close>,
  \<^const>\<open>AList.delete\<close> and \<^const>\<open>map_of\<close>; \<open>values()\<close> is \<open>map snd\<close>.
\<close>

record InMemoryUserStore =
  users :: "(string \<times> User) list"
  usernameIndex :: "(string \<times> string) list"

definition emptyStore :: InMemoryUserStore where
  "emptyStore = \<lparr>users = [], usernameIndex = []\<rparr>"

definition add :: "InMemoryUserStore \<Rightarrow> User \<Rightarrow> InMemoryUserStore" where
  "add s user =
     s\<lparr>users := AList.update (id' user) user (users s),
       usernameIndex := AList.update (toLowerCase (username user)) (id' user) (usernameIndex s)\<rparr>"

definition removeUser :: "InMemoryUserStore \<Rightarrow> string \<Rightarrow> User option \<times> InMemoryUserStore" where
  "removeUser s i =
     (case map_of (users s) i of
        None \<Rightarrow> (None, s)
      | Some user \<Rightarrow>
          (Some user,
           s\<lparr>users := AList.delete i (users s),
             usernameIndex := AList.delete (toLowerCase (username user)) (usernameIndex s)\<rparr>))"

definition findById :: "InMemoryUserStore \<Rightarrow> string \<Rightarrow> User option" where
  "findById s i = map_of (users s) i"

text \<open>
  \<open>return id ? this.users.get(id) : undefined\<close>: the index entry is tested for
  truthiness, and the empty string is falsy.
\<close>

definition findByUsername :: "InMemoryUserStore \<Rightarrow> string \<Rightarrow> User option" where
  "findByUsername s name =
     (case map_of (usernameIndex s) (toLowerCase name) of
        None \<Rightarrow> None
      | Some i \<Rightarrow> (if i = [] then None else map_of (users s) i))"

definition findByRoom :: "InMemoryUserStore \<Rightarrow> string \<Rightarrow> User list" where
  "findByRoom s r =
     filter (\<lambda>user. toLowerCase (room user) = toLowerCase r) (map snd (users s))"

definition getAll :: "InMemoryUserStore \<Rightarrow> User list" where
  "getAll s = map snd (users s)"

definition count_users :: "InMemoryUserStore \<Rightarrow> nat" where
  "count_users s = length (users s)"

text \<open>
  The service threads the store: every operation takes the store and, where it mutates,
  returns the new one beside its result.
\<close>

definition join ::
  "InMemoryUserStore \<Rightarrow> string \<Rightarrow> string \<Rightarrow> string \<Rightarrow> (UserError + User) \<times> InMemoryUserStore"
where
  "join s i name r =
     (case findByUsername s name of
        Some existingUser \<Rightarrow>
          (Inl \<lparr>message = ''Username is already taken'', code = USERNAME_TAKEN\<rparr>, s)
      | None \<Rightarrow>
          (let user = \<lparr>id' = i, username = name, room = r\<rparr>
           in (Inr user, add s user)))"

definition getById :: "InMemoryUserStore \<Rightarrow> string \<Rightarrow> User option" where
  "getById s i = findById s i"

definition getByUsername :: "InMemoryUserStore \<Rightarrow> string \<Rightarrow> User option" where
  "getByUsername s name = findByUsername s name"

definition leave :: "InMemoryUserStore \<Rightarrow> string \<Rightarrow> User option \<times> InMemoryUserStore" where
  "leave s i = removeUser s i"

definition getRoomUsers :: "InMemoryUserStore \<Rightarrow> string \<Rightarrow> User list" where
  "getRoomUsers s r = findByRoom s r"

definition getTotalCount :: "InMemoryUserStore \<Rightarrow> nat" where
  "getTotalCount s = count_users s"

definition getRoomCount :: "InMemoryUserStore \<Rightarrow> string \<Rightarrow> nat" where
  "getRoomCount s r = length (findByRoom s r)"

definition isUsernameAvailable :: "InMemoryUserStore \<Rightarrow> string \<Rightarrow> bool" where
  "isUsernameAvailable s name = (findByUsername s name = None)"

text \<open>
  \<open>rooms.add(user.room)\<close> for each user in table order, then \<open>Array.from(rooms)\<close>: a
  \<open>Set\<close> keeps the first insertion of each label.
\<close>

definition getActiveRooms :: "InMemoryUserStore \<Rightarrow> string list" where
  "getActiveRooms s =
     foldl (\<lambda>rooms user. if room user \<in> set rooms then rooms else rooms @ [room user])
       [] (getAll s)"

section \<open>Messages (src/services/message.service.ts, src/config/index.ts)\<close>

record FormattedMessage =
  username' :: string
  text' :: string
  time :: string

definition app_name :: string where
  "app_name = ''XeroxChat''"

definition botName :: string where
  "botName = ''XeroxChat Bot''"

text \<open>
  The time field is \<open>moment().tz(timezone).format('h:mm a')\<close>, read when the message is
  built; the rendering of the clock at that moment is the last argument.
\<close>

definition format :: "string \<Rightarrow> string \<Rightarrow> string \<Rightarrow> FormattedMessage" where
  "format name txt rendered = \<lparr>username' = name, text' = txt, time = rendered\<rparr>"

definition botMessage :: "string \<Rightarrow> string \<Rightarrow> FormattedMessage" where
  "botMessage txt rendered = format botName txt rendered"

definition welcome' :: "string \<Rightarrow> FormattedMessage" where
  "welcome' rendered = botMessage (''Welcome to '' @ app_name @ ''!'') rendered"

definition userJoined :: "string \<Rightarrow> string \<Rightarrow> FormattedMessage" where
  "userJoined name rendered = botMessage (name @ '' has joined the chat!'') rendered"

definition userLeft :: "string \<Rightarrow> string \<Rightarrow> FormattedMessage" where
  "userLeft name rendered = botMessage (name @ '' has left the chat!'') rendered"

section \<open>Socket handlers (src/socket/handlers.ts)\<close>

record SocketData =
  user :: "User option"
  joinedAt :: "nat option"
  lastActivity :: "nat option"

record TypedSocket =
  socket_id :: string
  data :: SocketData

datatype ServerEvent =
    MESSAGE FormattedMessage
  | ROOM_USERS string "User list"
  | USERNAME_ERROR string
  | USER_TYPING string bool
  | ERROR string string

text \<open>
  The calls a handler makes on the transport, in program order:
  \<open>socket.join(room)\<close> subscribes this connection to the room;
  \<open>socket.emit\<close> sends to this connection only;
  \<open>socket.broadcast.to(room).emit\<close> sends to every connection subscribed to the room
  except this one; \<open>io.to(room).emit\<close> sends to every connection subscribed to the room.
\<close>

datatype effect =
    SocketJoin string
  | SocketEmit ServerEvent
  | BroadcastTo string ServerEvent
  | IoTo string ServerEvent

definition broadcastRoomUsers :: "InMemoryUserStore \<Rightarrow> string \<Rightarrow> effect" where
  "broadcastRoomUsers store r = IoTo r (ROOM_USERS r (getRoomUsers store r))"

text \<open>
  A handler takes the store of the singleton service and the socket, and returns both
  with the transport calls it made. \<open>now\<close> is the value of \<open>new Date()\<close>; the remaining
  arguments are the clock renderings of the messages built, in the order they are built.
\<close>

definition handleJoinRoom ::
  "InMemoryUserStore \<Rightarrow> TypedSocket \<Rightarrow> string \<times> string \<Rightarrow> nat \<Rightarrow> string \<Rightarrow> string
     \<Rightarrow> InMemoryUserStore \<times> TypedSocket \<times> effect list"
where
  "handleJoinRoom store socket payload now t1 t2 =
     (case validate joinRoomSchema payload of
        Inl msg \<Rightarrow> (store, socket, [SocketEmit (USERNAME_ERROR msg)])
      | Inr (name, r) \<Rightarrow>
          (case join store (socket_id socket) name r of
             (Inl err, store') \<Rightarrow> (store', socket, [SocketEmit (USERNAME_ERROR (message err))])
           | (Inr u, store') \<Rightarrow>
               (store',
                socket\<lparr>data := (data socket)\<lparr>user := Some u, joinedAt := Some now\<rparr>\<rparr>,
                [SocketJoin (room u),
                 SocketEmit (MESSAGE (welcome' t1)),
                 BroadcastTo (room u) (MESSAGE (userJoined (username u) t2)),
                 broadcastRoomUsers store' (room u)])))"

text \<open>\<open>socket.data.user ?? userService.getById(socket.id)\<close>\<close>

definition currentUser :: "InMemoryUserStore \<Rightarrow> TypedSocket \<Rightarrow> User option" where
  "currentUser store socket =
     (case user (data socket) of Some u \<Rightarrow> Some u | None \<Rightarrow> getById store (socket_id socket))"

definition handleChatMessage ::
  "InMemoryUserStore \<Rightarrow> TypedSocket \<Rightarrow> string \<Rightarrow> nat \<Rightarrow> string
     \<Rightarrow> InMemoryUserStore \<times> TypedSocket \<times> effect list"
where
  "handleChatMessage store socket msg now t =
     (case currentUser store socket of
        None \<Rightarrow>
          (store, socket, [SocketEmit (ERROR ''USER_NOT_FOUND'' ''You must join a room first'')])
      | Some u \<Rightarrow>
          (case validate messageSchema msg of
             Inl err \<Rightarrow> (store, socket, [SocketEmit (ERROR ''INVALID_MESSAGE'' err)])
           | Inr sanitizedMessage \<Rightarrow>
               (store,
                socket\<lparr>data := (data socket)\<lparr>lastActivity := Some now\<rparr>\<rparr>,
                [IoTo (room u) (MESSAGE (format (username u) sanitizedMessage t))])))"

definition handleTyping ::
  "InMemoryUserStore \<Rightarrow> TypedSocket \<Rightarrow> bool \<Rightarrow> InMemoryUserStore \<times> TypedSocket \<times> effect list"
where
  "handleTyping store socket isTyping =
     (case currentUser store socket of
        None \<Rightarrow> (store, socket, [])
      | Some u \<Rightarrow> (store, socket, [BroadcastTo (room u) (USER_TYPING (username u) isTyping)]))"

definition handleDisconnect ::
  "InMemoryUserStore \<Rightarrow> TypedSocket \<Rightarrow> string
     \<Rightarrow> InMemoryUserStore \<times> TypedSocket \<times> effect list"
where
  "handleDisconnect store socket t =
     (case leave store (socket_id socket) of
        (None, store') \<Rightarrow> (store', socket, [])
      | (Some u, store') \<Rightarrow>
          (store', socket,
           [IoTo (room u) (MESSAGE (userLeft (username u) t)),
            broadcastRoomUsers store' (room u)]))"

section \<open>The transport\<close>

text \<open>
  Modelled from the spec: the room-addressed send primitive of the transport and its
  registry of room subscriptions (the socket.io server, which is not part of the sources).
  A subscription pairs a connection id with a room label; a label addresses the
  connections subscribed under that label exactly as it is written. Subscribing twice
  under one label has no further effect.
\<close>

type_synonym subscriptions = "(string \<times> string) list"

definition subscribe :: "subscriptions \<Rightarrow> string \<Rightarrow> string \<Rightarrow> subscriptions" where
  "subscribe subs sid r = (if (sid, r) \<in> set subs then subs else subs @ [(sid, r)])"

definition subscribers :: "subscriptions \<Rightarrow> string \<Rightarrow> string list" where
  "subscribers subs r = map fst (filter (\<lambda>p. snd p = r) subs)"

text \<open>
  The connections that receive the event of one transport call made by the handler of
  connection \<open>sid\<close>.
\<close>

fun recipients :: "subscriptions \<Rightarrow> string \<Rightarrow> effect \<Rightarrow> string list" where
  "recipients subs sid (SocketJoin r) = []"
| "recipients subs sid (SocketEmit e) = [sid]"
| "recipients subs sid (BroadcastTo r e) = filter (\<lambda>c. c \<noteq> sid) (subscribers subs r)"
| "recipients subs sid (IoTo r e) = subscribers subs r"

text \<open>
  Performing the calls of one handler run in program order: a \<open>socket.join\<close> updates the
  subscriptions, every emit is delivered to the recipients it has at that moment. The
  result is the new subscriptions and the deliveries, each a list of receiving connections
  with the event.
\<close>

fun perform ::
  "subscriptions \<Rightarrow> string \<Rightarrow> effect list \<Rightarrow> subscriptions \<times> (string list \<times> ServerEvent) list"
where
  "perform subs sid [] = (subs, [])"
| "perform subs sid (SocketJoin r # es) = perform (subscribe subs sid r) sid es"
| "perform subs sid (SocketEmit e # es) =
     (case perform subs sid es of
        (subs', ds) \<Rightarrow> (subs', (recipients subs sid (SocketEmit e), e) # ds))"
| "perform subs sid (BroadcastTo r e # es) =
     (case perform subs sid es of
        (subs', ds) \<Rightarrow> (subs', (recipients subs sid (BroadcastTo r e), e) # ds))"
| "perform subs sid (IoTo r e # es) =
     (case perform subs sid es of
        (subs', ds) \<Rightarrow> (subs', (recipients subs sid (IoTo r e), e) # ds))"

section \<open>The invariant of the store\<close>

text \<open>
  The name index mirrors the user table: every user is stored under a non-empty connection
  id and is indexed under its lower-cased name, and every index entry points to a stored
  user of that lower-cased name.
\<close>

definition consistent :: "InMemoryUserStore \<Rightarrow> bool" where
  "consistent s =
     (list_all (\<lambda>(i, u). i \<noteq> [] \<and> map_of (usernameIndex s) (toLowerCase (username u)) = Some i)
        (users s)
      \<and> list_all (\<lambda>(n, i). case map_of (users s) i of
                              None \<Rightarrow> False
                            | Some u \<Rightarrow> toLowerCase (username u) = n)
          (usernameIndex s))"


section \<open>Properties of the string operations\<close>

text \<open>A string that is not empty and has no white space at either end.\<close>

definition endsOk :: "string \<Rightarrow> bool" where
  "endsOk s = (s \<noteq> [] \<and> \<not> isWhiteSpace (hd s) \<and> \<not> isWhiteSpace (last s))"

lemma dropWhile_fix: "xs \<noteq> [] \<Longrightarrow> \<not> P (hd xs) \<Longrightarrow> dropWhile P xs = xs"
  by (cases xs) auto

lemma trim_fix: "endsOk s \<Longrightarrow> trim s = s"
  by (cases s) (auto simp: endsOk_def trim_def dropWhile_fix hd_rev split: if_splits)

lemma last_dropWhile: "dropWhile P xs \<noteq> [] \<Longrightarrow> last (dropWhile P xs) = last xs"
  by (induction xs) (auto split: if_splits)

lemma trim_endsOk: "trim s \<noteq> [] \<Longrightarrow> endsOk (trim s)"
proof -
  assume ne: "trim s \<noteq> []"
  define t where "t = dropWhile isWhiteSpace s"
  define r where "r = dropWhile isWhiteSpace (rev t)"
  have tr: "trim s = rev r" by (simp add: trim_def t_def r_def)
  with ne have rne: "r \<noteq> []" by simp
  then have tne: "t \<noteq> []" by (auto simp: r_def)
  have "\<not> isWhiteSpace (hd r)" using rne unfolding r_def by (rule hd_dropWhile)
  then have l: "\<not> isWhiteSpace (last (rev r))" using rne by (simp add: last_rev)
  have "last r = last (rev t)" using rne unfolding r_def by (rule last_dropWhile)
  also have "\<dots> = hd t" using tne by (simp add: last_rev)
  finally have "hd (rev r) = hd t" using rne by (simp add: hd_rev)
  moreover have "\<not> isWhiteSpace (hd t)" using tne unfolding t_def by (rule hd_dropWhile)
  ultimately have h: "\<not> isWhiteSpace (hd (rev r))" by simp
  from rne h l show ?thesis unfolding tr endsOk_def by simp
qed

lemma trim_idem: "trim (trim s) = trim s"
proof (cases "trim s = []")
  case True
  have "trim [] = []" by (simp add: trim_def)
  with True show ?thesis by simp
next
  case False
  then show ?thesis by (simp add: trim_endsOk trim_fix)
qed

lemma set_trim: "set (trim s) \<subseteq> set s"
proof
  fix x assume "x \<in> set (trim s)"
  then have "x \<in> set (dropWhile isWhiteSpace (rev (dropWhile isWhiteSpace s)))"
    by (simp add: trim_def)
  then have "x \<in> set (rev (dropWhile isWhiteSpace s))" by (rule set_dropWhileD)
  then have "x \<in> set (dropWhile isWhiteSpace s)" by simp
  then show "x \<in> set s" by (rule set_dropWhileD)
qed

lemma length_trim: "length (trim s) \<le> length s"
  unfolding trim_def
  by (metis length_dropWhile_le length_rev le_trans)

lemma list_all_trim: "list_all P s \<Longrightarrow> list_all P (trim s)"
  using set_trim [of s] by (auto simp: list_all_iff)

lemma username_not_ws: "isUsernameChar c \<Longrightarrow> \<not> isWhiteSpace c"
  by (auto simp: isUsernameChar_def isWhiteSpace_def Let_def)

lemma matchesPlus_iff: "matchesPlus cls s \<longleftrightarrow> s \<noteq> [] \<and> list_all cls s"
  by (cases s) (simp_all add: matchesPlus_def)

lemma username_endsOk: "matchesPlus isUsernameChar s \<Longrightarrow> endsOk s"
  by (cases s) (auto simp: matchesPlus_iff endsOk_def username_not_ws list_all_iff)

lemma set_replaceAll: "set (replaceAll c r s) \<subseteq> (set s - {c}) \<union> set r"
  by (induction s) (auto simp: replaceAll_def)

lemma replaceAll_id: "c \<notin> set s \<Longrightarrow> replaceAll c r s = s"
  by (induction s) (auto simp: replaceAll_def)

lemma replaceAll_Nil_iff: "r \<noteq> [] \<Longrightarrow> replaceAll c r s = [] \<longleftrightarrow> s = []"
  by (cases s) (auto simp: replaceAll_def)

lemma replaceAll_snoc: "replaceAll c r (xs @ [x]) = replaceAll c r xs @ (if x = c then r else [x])"
  by (simp add: replaceAll_def)

lemma replaceAll_endsOk:
  assumes "endsOk r" "endsOk s"
  shows "endsOk (replaceAll c r s)"
proof -
  from assms(2) obtain x xs where s: "s = x # xs" by (cases s) (auto simp: endsOk_def)
  from assms(2) obtain y ys where s': "s = ys @ [y]" by (cases s rule: rev_cases) (auto simp: endsOk_def)
  from assms(1) have rne: "r \<noteq> []" by (auto simp: endsOk_def)
  have ne: "replaceAll c r s \<noteq> []" using rne s by (simp add: replaceAll_Nil_iff)
  have h: "\<not> isWhiteSpace (hd (replaceAll c r s))"
    using assms rne unfolding s by (cases r) (auto simp: replaceAll_def endsOk_def)
  have l: "\<not> isWhiteSpace (last (replaceAll c r s))"
    using assms rne unfolding s' replaceAll_snoc by (cases r) (auto simp: endsOk_def)
  from ne h l show ?thesis by (simp add: endsOk_def)
qed

lemma sanitize_endsOk: "endsOk s \<Longrightarrow> endsOk (sanitize s)"
  unfolding sanitize_def
  by (intro replaceAll_endsOk) (simp_all add: endsOk_def isWhiteSpace_def)

lemma sanitize_Nil_iff: "sanitize s = [] \<longleftrightarrow> s = []"
  by (simp add: sanitize_def replaceAll_Nil_iff)

lemma sanitize_clean:
  "CHR ''<'' \<notin> set (sanitize s) \<and> CHR ''>'' \<notin> set (sanitize s)
   \<and> CHR 0x22 \<notin> set (sanitize s) \<and> CHR 0x27 \<notin> set (sanitize s)"
proof -
  let ?a = "replaceAll (CHR ''<'') ''&lt;'' s"
  let ?b = "replaceAll (CHR ''>'') ''&gt;'' ?a"
  let ?c = "replaceAll (CHR 0x22) ''&quot;'' ?b"
  let ?d = "replaceAll (CHR 0x27) ''&#x27;'' ?c"
  have a: "CHR ''<'' \<notin> set ?a" using set_replaceAll [of "CHR ''<''" "''&lt;''" s] by auto
  have b: "CHR ''<'' \<notin> set ?b" "CHR ''>'' \<notin> set ?b"
    using a set_replaceAll [of "CHR ''>''" "''&gt;''" ?a] by auto
  have c: "CHR ''<'' \<notin> set ?c" "CHR ''>'' \<notin> set ?c" "CHR 0x22 \<notin> set ?c"
    using b set_replaceAll [of "CHR 0x22" "''&quot;''" ?b] by auto
  have d: "CHR ''<'' \<notin> set ?d" "CHR ''>'' \<notin> set ?d" "CHR 0x22 \<notin> set ?d" "CHR 0x27 \<notin> set ?d"
    using c set_replaceAll [of "CHR 0x27" "''&#x27;''" ?c] by auto
  from d show ?thesis by (simp add: sanitize_def)
qed

lemma sanitize_idem: "sanitize (sanitize s) = sanitize s"
  using sanitize_clean [of s]
  by (subst (1) sanitize_def) (simp add: replaceAll_id)

section \<open>Properties of the schemas\<close>

lemma validate_Inr_iff: "validate schema x = Inr v \<longleftrightarrow> schema x = Inr v"
  by (simp add: validate_def split: sum.splits)

lemma usernameSchema_Inr:
  "usernameSchema raw = Inr v \<longleftrightarrow>
     v = trim raw \<and> 2 \<le> length v \<and> length v \<le> 20 \<and> matchesPlus isUsernameChar v"
  by (auto simp: usernameSchema_def Let_def)

lemma roomSchema_Inr:
  "roomSchema raw = Inr v \<longleftrightarrow>
     v = trim raw \<and> 1 \<le> length raw \<and> length raw \<le> 50 \<and> matchesPlus isRoomChar raw"
  by (cases raw) (auto simp: roomSchema_def Let_def)

lemma messageSchema_Inr:
  "messageSchema raw = Inr v \<longleftrightarrow>
     v = sanitize (trim raw) \<and> 1 \<le> length raw \<and> length raw \<le> 1000"
  by (cases raw) (auto simp: messageSchema_def Let_def)

lemma usernameSchema_idem:
  assumes "usernameSchema raw = Inr v"
  shows "usernameSchema v = Inr v"
proof -
  from assms have v: "2 \<le> length v" "length v \<le> 20" "matchesPlus isUsernameChar v"
    by (auto simp: usernameSchema_Inr)
  from v(3) have "trim v = v" by (simp add: username_endsOk trim_fix)
  with v show ?thesis by (simp add: usernameSchema_Inr)
qed

lemma roomSchema_idem:
  assumes "roomSchema raw = Inr v" and "v \<noteq> []"
  shows "roomSchema v = Inr v"
proof -
  from assms(1) have v: "v = trim raw" and len: "length raw \<le> 50"
    and cls: "matchesPlus isRoomChar raw"
    by (auto simp: roomSchema_Inr)
  from v assms(2) have tv: "trim v = v" by (simp add: trim_idem)
  from cls have "list_all isRoomChar v" unfolding v by (simp add: matchesPlus_iff list_all_trim)
  with assms(2) have cls': "matchesPlus isRoomChar v" by (simp add: matchesPlus_iff)
  from len length_trim [of raw] have len': "length v \<le> 50" unfolding v by simp
  from assms(2) have "1 \<le> length v" by (cases v) simp_all
  with tv cls' len' show ?thesis by (simp add: roomSchema_Inr)
qed

lemma messageSchema_idem:
  assumes "messageSchema raw = Inr v" and "v \<noteq> []" and "length v \<le> 1000"
  shows "messageSchema v = Inr v"
proof -
  from assms(1) have v: "v = sanitize (trim raw)" by (simp add: messageSchema_Inr)
  with assms(2) have "trim raw \<noteq> []" by (simp add: sanitize_Nil_iff)
  then have "endsOk v" unfolding v by (intro sanitize_endsOk trim_endsOk)
  then have tv: "trim v = v" by (rule trim_fix)
  have san: "sanitize v = v" unfolding v by (rule sanitize_idem)
  from assms(2) have "1 \<le> length v" by (cases v) simp_all
  with tv san assms(3) show ?thesis by (simp add: messageSchema_Inr)
qed

section \<open>Validation\<close>

text \<open>
  C3. \<open>validateRoom\<close> is claimed to fail with the "required" (EMPTY) error for every raw
  string whose trimmed length is 0. The schema checks \<open>min(1)\<close> on the raw string and
  trims afterwards, so the one-space string passes every check and is accepted with the
  empty room as its value.
\<close>

theorem validateRoom_blank: "validateRoom '' '' = Inr []"
  by code_simp

text \<open>
  C4. \<open>validateMessage\<close> is claimed to fail with the "cannot be empty" (EMPTY) error for
  every raw string whose trimmed length is 0. The length check runs on the raw string and
  the trim after it, so the one-space string is accepted as the empty message.
\<close>

theorem validateMessage_blank: "validateMessage '' '' = Inr []"
  by code_simp

text \<open>
  C5. For every raw string that \<open>validateMessage\<close> accepts, the returned text contains
  none of the characters \<open><\<close>, \<open>>\<close>, double quote (0x22) and single quote (0x27);
  and \<open><script>alert(1)</script>\<close> is accepted, with every \<open><\<close> and \<open>>\<close> replaced
  by its entity.
\<close>

theorem validateMessage_escapes:
  "(validateMessage raw = Inr v \<longrightarrow>
      CHR ''<'' \<notin> set v \<and> CHR ''>'' \<notin> set v \<and> CHR 0x22 \<notin> set v \<and> CHR 0x27 \<notin> set v)
   \<and> validateMessage ''<script>alert(1)</script>'' = Inr ''&lt;script&gt;alert(1)&lt;/script&gt;''"
proof
  show "validateMessage raw = Inr v \<longrightarrow>
      CHR ''<'' \<notin> set v \<and> CHR ''>'' \<notin> set v \<and> CHR 0x22 \<notin> set v \<and> CHR 0x27 \<notin> set v"
    using sanitize_clean [of "trim raw"]
    by (simp add: validateMessage_def validate_Inr_iff messageSchema_Inr)
  show "validateMessage ''<script>alert(1)</script>'' = Inr ''&lt;script&gt;alert(1)&lt;/script&gt;''"
    by code_simp
qed

theorem validateMessage_escapes_witness:
  "validateMessage ''say \"<b>it's</b>\"'' = Inr ''say &quot;&lt;b&gt;it&#x27;s&lt;/b&gt;&quot;''
   \<and> CHR ''<'' \<notin> set ''say &quot;&lt;b&gt;it&#x27;s&lt;/b&gt;&quot;''
   \<and> CHR ''>'' \<notin> set ''say &quot;&lt;b&gt;it&#x27;s&lt;/b&gt;&quot;''
   \<and> CHR 0x22 \<notin> set ''say &quot;&lt;b&gt;it&#x27;s&lt;/b&gt;&quot;''
   \<and> CHR 0x27 \<notin> set ''say &quot;&lt;b&gt;it&#x27;s&lt;/b&gt;&quot;''"
proof -
  have h: "validateMessage ''say \"<b>it's</b>\"'' = Inr ''say &quot;&lt;b&gt;it&#x27;s&lt;/b&gt;&quot;''"
    by code_simp
  from validateMessage_escapes [of "''say \"<b>it's</b>\"''" "''say &quot;&lt;b&gt;it&#x27;s&lt;/b&gt;&quot;''"] h
  show ?thesis by blast
qed

text \<open>
  C6, as stated, fails: a message of 251 \<open><\<close> characters is accepted and its escaped text
  has 1004 characters, which the same validator rejects as too long; and the values
  returned for the one-space room and message are empty, which the validators reject.
\<close>

theorem validators_idempotent_counterexample:
  "validateMessage (replicate 251 (CHR ''<'')) = Inr (concat (replicate 251 ''&lt;''))
   \<and> validateMessage (concat (replicate 251 ''&lt;'')) = Inl ''Message must be at most 1000 characters''
   \<and> validateRoom '' '' = Inr [] \<and> validateRoom [] = Inl ''Room name is required''
   \<and> validateMessage '' '' = Inr [] \<and> validateMessage [] = Inl ''Message cannot be empty''"
  by code_simp

text \<open>
  C6, amended. \<open>validateName\<close> accepts every value it returns and returns it unchanged.
  \<open>validateRoom\<close> does so for every returned value that is not empty, and
  \<open>validateMessage\<close> for every returned value that is not empty and has at most 1000
  characters: no second escaping and no further trimming takes place.
\<close>

theorem validators_idempotent_on_output:
  "(validateName rawN = Inr n \<longrightarrow> validateName n = Inr n)
   \<and> (validateRoom rawR = Inr r \<and> r \<noteq> [] \<longrightarrow> validateRoom r = Inr r)
   \<and> (validateMessage rawM = Inr m \<and> m \<noteq> [] \<and> length m \<le> 1000 \<longrightarrow> validateMessage m = Inr m)"
  unfolding validateName_def validateRoom_def validateMessage_def validate_Inr_iff
  by (blast intro: usernameSchema_idem roomSchema_idem messageSchema_idem)

theorem validators_idempotent_on_output_witness:
  "validateName ''  alice  '' = Inr ''alice'' \<and> validateName ''alice'' = Inr ''alice''
   \<and> validateRoom '' Room 123  '' = Inr ''Room 123'' \<and> validateRoom ''Room 123'' = Inr ''Room 123''
   \<and> validateMessage '' <b>hi</b> '' = Inr ''&lt;b&gt;hi&lt;/b&gt;''
   \<and> validateMessage ''&lt;b&gt;hi&lt;/b&gt;'' = Inr ''&lt;b&gt;hi&lt;/b&gt;''"
proof -
  have n: "validateName ''  alice  '' = Inr ''alice''" by code_simp
  have r: "validateRoom '' Room 123  '' = Inr ''Room 123''" by code_simp
  have m: "validateMessage '' <b>hi</b> '' = Inr ''&lt;b&gt;hi&lt;/b&gt;''" by code_simp
  from validators_idempotent_on_output [of "''  alice  ''" "''alice''" "'' Room 123  ''" "''Room 123''"
      "'' <b>hi</b> ''" "''&lt;b&gt;hi&lt;/b&gt;''"] n r m
  show ?thesis by simp
qed

section \<open>The registry\<close>

lemma removeUser_absent: "map_of (users s) i = None \<Longrightarrow> removeUser s i = (None, s)"
  by (simp add: removeUser_def)

lemma removeUser_gone: "map_of (users (snd (removeUser s i))) i = None"
  by (simp add: removeUser_def AList.delete_conv' split: option.splits)

text \<open>
  C7. \<open>leave\<close> for a connection id with no active user returns absent and returns the
  store unchanged, so \<open>getActiveRooms\<close> and the members of every room are the same before
  and after the call. After any \<open>leave\<close>, a second \<open>leave\<close> for the same id returns absent
  and changes nothing.
\<close>

theorem leave_unknown_noop:
  "(getById s i = None \<longrightarrow>
      leave s i = (None, s)
      \<and> getActiveRooms (snd (leave s i)) = getActiveRooms s
      \<and> (\<forall>r. getRoomUsers (snd (leave s i)) r = getRoomUsers s r))
   \<and> leave (snd (leave s i)) i = (None, snd (leave s i))"
proof (intro conjI impI)
  assume "getById s i = None"
  then have *: "leave s i = (None, s)"
    by (simp add: getById_def findById_def leave_def removeUser_absent)
  show "leave s i = (None, s)" by (rule *)
  show "getActiveRooms (snd (leave s i)) = getActiveRooms s" by (simp add: *)
  show "\<forall>r. getRoomUsers (snd (leave s i)) r = getRoomUsers s r" by (simp add: *)
next
  show "leave (snd (leave s i)) i = (None, snd (leave s i))"
    unfolding leave_def by (rule removeUser_absent) (rule removeUser_gone)
qed

theorem leave_unknown_noop_witness:
  "getById (snd (join emptyStore ''c1'' ''alice'' ''general'')) ''c2'' = None
   \<and> leave (snd (join emptyStore ''c1'' ''alice'' ''general'')) ''c2''
       = (None, snd (join emptyStore ''c1'' ''alice'' ''general''))
   \<and> getActiveRooms (snd (leave (snd (join emptyStore ''c1'' ''alice'' ''general'')) ''c2''))
       = [''general'']"
proof -
  have h: "getById (snd (join emptyStore ''c1'' ''alice'' ''general'')) ''c2'' = None"
    by code_simp
  have a: "getActiveRooms (snd (join emptyStore ''c1'' ''alice'' ''general'')) = [''general'']"
    by code_simp
  from leave_unknown_noop [of "snd (join emptyStore ''c1'' ''alice'' ''general'')" "''c2''"] h a
  show ?thesis by simp
qed

section \<open>The handlers\<close>

text \<open>
  C8. A chat message from a connection that never joined (no user in the socket data and
  none in the registry under the socket id) makes exactly one transport call: one
  \<open>error\<close> event with code \<open>USER_NOT_FOUND\<close> emitted to that socket. Nothing is sent to a
  room, and the registry and the socket data are returned unchanged.
\<close>

theorem handleChatMessage_unjoined:
  assumes "user (data socket) = None" and "getById store (socket_id socket) = None"
  shows "handleChatMessage store socket msg now t =
           (store, socket, [SocketEmit (ERROR ''USER_NOT_FOUND'' ''You must join a room first'')])"
  using assms by (simp add: handleChatMessage_def currentUser_def)

theorem handleChatMessage_unjoined_witness:
  "user (data \<lparr>socket_id = ''c2'', data = \<lparr>user = None, joinedAt = None, lastActivity = None\<rparr>\<rparr>) = None
   \<and> getById (snd (join emptyStore ''c1'' ''alice'' ''general'')) ''c2'' = None
   \<and> handleChatMessage (snd (join emptyStore ''c1'' ''alice'' ''general''))
         \<lparr>socket_id = ''c2'', data = \<lparr>user = None, joinedAt = None, lastActivity = None\<rparr>\<rparr>
         ''Hello'' 0 ''10:00 am''
       = (snd (join emptyStore ''c1'' ''alice'' ''general''),
          \<lparr>socket_id = ''c2'', data = \<lparr>user = None, joinedAt = None, lastActivity = None\<rparr>\<rparr>,
          [SocketEmit (ERROR ''USER_NOT_FOUND'' ''You must join a room first'')])"
proof -
  let ?socket = "\<lparr>socket_id = ''c2'', data = \<lparr>user = None, joinedAt = None, lastActivity = None\<rparr>\<rparr>"
  have u: "user (data ?socket) = None" by simp
  have h: "getById (snd (join emptyStore ''c1'' ''alice'' ''general'')) (socket_id ?socket) = None"
    by code_simp
  from handleChatMessage_unjoined [OF u h, of "''Hello''" 0 "''10:00 am''"] u h
  show ?thesis by simp
qed

text \<open>
  When the payload validates and the registry accepts the join, the transport calls of the
  handler are, in program order: the subscription of the socket under the room label, the
  welcome message to the socket itself, the "has joined" notice addressed to the label
  except the socket, and the list of the room's users addressed to the label.
\<close>

lemma handleJoinRoom_calls:
  assumes "validate joinRoomSchema payload = Inr (name, r)"
    and "fst (join store (socket_id socket) name r) = Inr u"
  shows "snd (snd (handleJoinRoom store socket payload now t1 t2)) =
           [SocketJoin r,
            SocketEmit (MESSAGE (welcome' t1)),
            BroadcastTo r (MESSAGE (userJoined name t2)),
            IoTo r (ROOM_USERS r (getRoomUsers (snd (join store (socket_id socket) name r)) r))]"
proof -
  from assms(2) have u: "u = \<lparr>id' = socket_id socket, username = name, room = r\<rparr>"
    by (auto simp: join_def Let_def split: option.splits)
  obtain res store' where j: "join store (socket_id socket) name r = (res, store')"
    by (cases "join store (socket_id socket) name r")
  with assms(2) have res: "res = Inr u" by simp
  show ?thesis
    by (simp add: handleJoinRoom_def assms(1) j res u broadcastRoomUsers_def)
qed

lemma handleJoinRoom_calls_example:
  "validate joinRoomSchema ('' bob '', ''general'') = Inr (''bob'', ''general'')
   \<and> fst (join (snd (join emptyStore ''c1'' ''alice'' ''general'')) ''c2'' ''bob'' ''general'')
       = Inr \<lparr>id' = ''c2'', username = ''bob'', room = ''general''\<rparr>
   \<and> snd (snd (handleJoinRoom (snd (join emptyStore ''c1'' ''alice'' ''general''))
         \<lparr>socket_id = ''c2'', data = \<lparr>user = None, joinedAt = None, lastActivity = None\<rparr>\<rparr>
         ('' bob '', ''general'') 0 ''10:00 am'' ''10:01 am''))
       = [SocketJoin ''general'',
          SocketEmit (MESSAGE \<lparr>username' = ''XeroxChat Bot'', text' = ''Welcome to XeroxChat!'',
                               time = ''10:00 am''\<rparr>),
          BroadcastTo ''general''
            (MESSAGE \<lparr>username' = ''XeroxChat Bot'', text' = ''bob has joined the chat!'',
                      time = ''10:01 am''\<rparr>),
          IoTo ''general'' (ROOM_USERS ''general''
            [\<lparr>id' = ''c1'', username = ''alice'', room = ''general''\<rparr>,
             \<lparr>id' = ''c2'', username = ''bob'', room = ''general''\<rparr>])]"
proof -
  let ?store = "snd (join emptyStore ''c1'' ''alice'' ''general'')"
  let ?socket = "\<lparr>socket_id = ''c2'', data = \<lparr>user = None, joinedAt = None, lastActivity = None\<rparr>\<rparr>"
  have v: "validate joinRoomSchema ('' bob '', ''general'') = Inr (''bob'', ''general'')"
    by code_simp
  have j: "fst (join ?store (socket_id ?socket) ''bob'' ''general'')
             = Inr \<lparr>id' = ''c2'', username = ''bob'', room = ''general''\<rparr>"
    by code_simp
  have w: "welcome' ''10:00 am''
             = \<lparr>username' = ''XeroxChat Bot'', text' = ''Welcome to XeroxChat!'', time = ''10:00 am''\<rparr>"
    by code_simp
  have uj: "userJoined ''bob'' ''10:01 am''
              = \<lparr>username' = ''XeroxChat Bot'', text' = ''bob has joined the chat!'', time = ''10:01 am''\<rparr>"
    by code_simp
  have g: "getRoomUsers (snd (join ?store (socket_id ?socket) ''bob'' ''general'')) ''general'' =
        [\<lparr>id' = ''c1'', username = ''alice'', room = ''general''\<rparr>,
         \<lparr>id' = ''c2'', username = ''bob'', room = ''general''\<rparr>]"
    by code_simp
  have e: "snd (snd (handleJoinRoom ?store ?socket ('' bob '', ''general'') 0 ''10:00 am'' ''10:01 am''))
       = [SocketJoin ''general'',
          SocketEmit (MESSAGE \<lparr>username' = ''XeroxChat Bot'', text' = ''Welcome to XeroxChat!'',
                               time = ''10:00 am''\<rparr>),
          BroadcastTo ''general''
            (MESSAGE \<lparr>username' = ''XeroxChat Bot'', text' = ''bob has joined the chat!'',
                      time = ''10:01 am''\<rparr>),
          IoTo ''general'' (ROOM_USERS ''general''
            [\<lparr>id' = ''c1'', username = ''alice'', room = ''general''\<rparr>,
             \<lparr>id' = ''c2'', username = ''bob'', room = ''general''\<rparr>])]"
    using handleJoinRoom_calls [OF v j, of 0 "''10:00 am''" "''10:01 am''"]
    unfolding w uj g .
  have j': "fst (join ?store ''c2'' ''bob'' ''general'')
             = Inr \<lparr>id' = ''c2'', username = ''bob'', room = ''general''\<rparr>"
    using j by simp
  from v j' e show ?thesis by (intro conjI)
qed

text \<open>
  C9. The three emissions of a successful join are claimed to go, in this order, to the
  joiner alone, to every other member of the room, and to all members of the room. The
  order holds, the recipients do not: after \<open>alice\<close> (connection \<open>c1\<close>) has joined
  \<open>General\<close>, the join of \<open>bob\<close> (connection \<open>c2\<close>) to \<open>general\<close> delivers the welcome
  to \<open>c2\<close>, the "has joined" notice to nobody and the list of users to \<open>c2\<close> only,
  although \<open>alice\<close> is a member of the room \<open>general\<close> and is named in that very list.
\<close>

theorem joined_notice_misses_case_variant_member:
  "snd (perform
          (fst (perform [] ''c1''
             (snd (snd (handleJoinRoom emptyStore
                \<lparr>socket_id = ''c1'', data = \<lparr>user = None, joinedAt = None, lastActivity = None\<rparr>\<rparr>
                (''alice'', ''General'') 0 ''10:00 am'' ''10:00 am'')))))
          ''c2''
          (snd (snd (handleJoinRoom
             (fst (handleJoinRoom emptyStore
                \<lparr>socket_id = ''c1'', data = \<lparr>user = None, joinedAt = None, lastActivity = None\<rparr>\<rparr>
                (''alice'', ''General'') 0 ''10:00 am'' ''10:00 am''))
             \<lparr>socket_id = ''c2'', data = \<lparr>user = None, joinedAt = None, lastActivity = None\<rparr>\<rparr>
             (''bob'', ''general'') 1 ''10:01 am'' ''10:01 am''))))
   = [([''c2''],
       MESSAGE \<lparr>username' = ''XeroxChat Bot'', text' = ''Welcome to XeroxChat!'',
                time = ''10:01 am''\<rparr>),
      ([],
       MESSAGE \<lparr>username' = ''XeroxChat Bot'', text' = ''bob has joined the chat!'',
                time = ''10:01 am''\<rparr>),
      ([''c2''],
       ROOM_USERS ''general''
         [\<lparr>id' = ''c1'', username = ''alice'', room = ''General''\<rparr>,
          \<lparr>id' = ''c2'', username = ''bob'', room = ''general''\<rparr>])]
   \<and> getRoomUsers
         (fst (handleJoinRoom
            (fst (handleJoinRoom emptyStore
               \<lparr>socket_id = ''c1'', data = \<lparr>user = None, joinedAt = None, lastActivity = None\<rparr>\<rparr>
               (''alice'', ''General'') 0 ''10:00 am'' ''10:00 am''))
            \<lparr>socket_id = ''c2'', data = \<lparr>user = None, joinedAt = None, lastActivity = None\<rparr>\<rparr>
            (''bob'', ''general'') 1 ''10:01 am'' ''10:01 am''))
         ''general''
     = [\<lparr>id' = ''c1'', username = ''alice'', room = ''General''\<rparr>,
        \<lparr>id' = ''c2'', username = ''bob'', room = ''general''\<rparr>]"
  by code_simp

text \<open>
  With both users under the same label the same run reaches them: the notice goes to
  \<open>c1\<close> and the list of users to \<open>c1\<close> and \<open>c2\<close>.
\<close>

lemma joined_notice_same_label:
  "snd (perform
          (fst (perform [] ''c1''
             (snd (snd (handleJoinRoom emptyStore
                \<lparr>socket_id = ''c1'', data = \<lparr>user = None, joinedAt = None, lastActivity = None\<rparr>\<rparr>
                (''alice'', ''general'') 0 ''10:00 am'' ''10:00 am'')))))
          ''c2''
          (snd (snd (handleJoinRoom
             (fst (handleJoinRoom emptyStore
                \<lparr>socket_id = ''c1'', data = \<lparr>user = None, joinedAt = None, lastActivity = None\<rparr>\<rparr>
                (''alice'', ''general'') 0 ''10:00 am'' ''10:00 am''))
             \<lparr>socket_id = ''c2'', data = \<lparr>user = None, joinedAt = None, lastActivity = None\<rparr>\<rparr>
             (''bob'', ''general'') 1 ''10:01 am'' ''10:01 am''))))
   = [([''c2''],
       MESSAGE \<lparr>username' = ''XeroxChat Bot'', text' = ''Welcome to XeroxChat!'',
                time = ''10:01 am''\<rparr>),
      ([''c1''],
       MESSAGE \<lparr>username' = ''XeroxChat Bot'', text' = ''bob has joined the chat!'',
                time = ''10:01 am''\<rparr>),
      ([''c1'', ''c2''],
       ROOM_USERS ''general''
         [\<lparr>id' = ''c1'', username = ''alice'', room = ''general''\<rparr>,
          \<lparr>id' = ''c2'', username = ''bob'', room = ''general''\<rparr>])]"
  by code_simp

section \<open>Rooms\<close>

lemma set_foldl_rooms:
  "set (foldl (\<lambda>rooms u. if room u \<in> set rooms then rooms else rooms @ [room u]) acc us)
     = set acc \<union> room ` set us"
  by (induction us arbitrary: acc) auto

lemma distinct_foldl_rooms:
  "distinct acc \<Longrightarrow>
   distinct (foldl (\<lambda>rooms u. if room u \<in> set rooms then rooms else rooms @ [room u]) acc us)"
  by (induction us arbitrary: acc) auto

text \<open>
  Two labels that differ only in the case of ASCII letters have the same lower-case form.
\<close>

lemma toLowerCaseChar_ascii_upper:
  assumes "65 \<le> (of_char x :: nat)" and "(of_char x :: nat) \<le> 90"
    and "(of_char y :: nat) = of_char x + 32"
  shows "toLowerCaseChar x = y" and "toLowerCaseChar y = y"
proof -
  from assms have "toLowerCaseChar x = char_of (of_char y :: nat)"
    by (simp add: toLowerCaseChar_def Let_def)
  then show "toLowerCaseChar x = y" by simp
  from assms show "toLowerCaseChar y = y"
    by (simp add: toLowerCaseChar_def Let_def)
qed

lemma toLowerCase_ascii_case:
  assumes "list_all2 (\<lambda>x y. x = y
             \<or> (65 \<le> (of_char x :: nat) \<and> (of_char x :: nat) \<le> 90 \<and> (of_char y :: nat) = of_char x + 32)
             \<or> (65 \<le> (of_char y :: nat) \<and> (of_char y :: nat) \<le> 90 \<and> (of_char x :: nat) = of_char y + 32))
           a b"
  shows "toLowerCase a = toLowerCase b"
  using assms
proof (induction a b rule: list_all2_induct)
  case Nil
  show ?case by (simp add: toLowerCase_def)
next
  case (Cons x xs y ys)
  from Cons.hyps(1) have "toLowerCaseChar x = toLowerCaseChar y"
    by (auto simp: toLowerCaseChar_ascii_upper)
  with Cons.IH show ?case by (simp add: toLowerCase_def)
qed

text \<open>
  C10. Two room labels with the same lower-case form (in particular two labels that differ
  only in the case of ASCII letters) have the same members in every store, while
  \<open>getActiveRooms\<close> lists, without repetition, exactly the room labels stored in the user
  table, as they were written: after \<open>alice\<close> joins \<open>General\<close> and \<open>bob\<close> joins
  \<open>general\<close>, both labels are listed and each of them has both users as its members.
\<close>

theorem room_matching_case_insensitive:
  "(toLowerCase r1 = toLowerCase r2 \<longrightarrow> getRoomUsers s r1 = getRoomUsers s r2)
   \<and> set (getActiveRooms s) = room ` set (getAll s)
   \<and> distinct (getActiveRooms s)
   \<and> getActiveRooms (snd (join (snd (join emptyStore ''c1'' ''alice'' ''General'')) ''c2'' ''bob'' ''general''))
        = [''General'', ''general'']
   \<and> getRoomUsers (snd (join (snd (join emptyStore ''c1'' ''alice'' ''General'')) ''c2'' ''bob'' ''general'')) ''General''
        = [\<lparr>id' = ''c1'', username = ''alice'', room = ''General''\<rparr>,
           \<lparr>id' = ''c2'', username = ''bob'', room = ''general''\<rparr>]
   \<and> getRoomUsers (snd (join (snd (join emptyStore ''c1'' ''alice'' ''General'')) ''c2'' ''bob'' ''general'')) ''general''
        = [\<lparr>id' = ''c1'', username = ''alice'', room = ''General''\<rparr>,
           \<lparr>id' = ''c2'', username = ''bob'', room = ''general''\<rparr>]"
proof (intro conjI impI)
  assume "toLowerCase r1 = toLowerCase r2"
  then show "getRoomUsers s r1 = getRoomUsers s r2"
    by (simp add: getRoomUsers_def findByRoom_def)
next
  show "set (getActiveRooms s) = room ` set (getAll s)"
    by (simp add: getActiveRooms_def set_foldl_rooms)
next
  show "distinct (getActiveRooms s)"
    by (simp add: getActiveRooms_def distinct_foldl_rooms)
qed code_simp+

theorem room_matching_case_insensitive_witness:
  "toLowerCase ''General'' = toLowerCase ''GENERAL''
   \<and> getRoomUsers (snd (join emptyStore ''c1'' ''alice'' ''general'')) ''General''
       = getRoomUsers (snd (join emptyStore ''c1'' ''alice'' ''general'')) ''GENERAL''"
proof -
  have h: "toLowerCase ''General'' = toLowerCase ''GENERAL''" by code_simp
  from room_matching_case_insensitive [of "''General''" "''GENERAL''"
      "snd (join emptyStore ''c1'' ''alice'' ''general'')"] h
  show ?thesis by blast
qed


section \<open>Joins and leaves on a consistent store\<close>

text \<open>
  On a store whose index mirrors the table, \<open>join\<close> fails exactly when the name is held by
  an active user; a failed \<open>join\<close> never changes the store; and the invariant is kept by
  \<open>leave\<close> and by a \<open>join\<close> from a connection with a non-empty id that is not registered.
\<close>

lemma consistent_user:
  "consistent s \<Longrightarrow> (i, u) \<in> set (users s) \<Longrightarrow>
     i \<noteq> [] \<and> map_of (usernameIndex s) (toLowerCase (username u)) = Some i"
  by (auto simp: consistent_def list_all_iff)

lemma consistent_index:
  "consistent s \<Longrightarrow> (n, i) \<in> set (usernameIndex s) \<Longrightarrow>
     \<exists>u. map_of (users s) i = Some u \<and> toLowerCase (username u) = n"
  by (auto simp: consistent_def list_all_iff split: option.splits)

lemma consistentI:
  assumes "\<And>i u. (i, u) \<in> set (users s) \<Longrightarrow>
             i \<noteq> [] \<and> map_of (usernameIndex s) (toLowerCase (username u)) = Some i"
    and "\<And>n i. (n, i) \<in> set (usernameIndex s) \<Longrightarrow>
             \<exists>u. map_of (users s) i = Some u \<and> toLowerCase (username u) = n"
  shows "consistent s"
  unfolding consistent_def list_all_iff
proof (intro conjI ballI)
  fix p assume "p \<in> set (users s)"
  with assms(1) [of "fst p" "snd p"]
  show "case p of (i, u) \<Rightarrow>
          i \<noteq> [] \<and> map_of (usernameIndex s) (toLowerCase (username u)) = Some i"
    by (simp add: case_prod_beta)
next
  fix p assume "p \<in> set (usernameIndex s)"
  with assms(2) [of "fst p" "snd p"]
  show "case p of (n, i) \<Rightarrow>
          (case map_of (users s) i of None \<Rightarrow> False | Some u \<Rightarrow> toLowerCase (username u) = n)"
    by (auto simp: case_prod_beta)
qed

lemma set_update_subset: "set (AList.update k v al) \<subseteq> insert (k, v) (set al)"
  by (induction al) auto

lemma set_delete_subset: "set (AList.delete k al) \<subseteq> {p \<in> set al. fst p \<noteq> k}"
  by (induction al) auto

lemma findByUsername_Some:
  assumes "consistent s" and "findByUsername s name = Some u"
  shows "u \<in> set (getAll s) \<and> toLowerCase (username u) = toLowerCase name"
proof -
  from assms(2) obtain i where i: "map_of (usernameIndex s) (toLowerCase name) = Some i"
    and u: "map_of (users s) i = Some u"
    by (auto simp: findByUsername_def split: option.splits if_splits)
  from i have "(toLowerCase name, i) \<in> set (usernameIndex s)" by (rule map_of_SomeD)
  with assms(1) u have "toLowerCase (username u) = toLowerCase name"
    by (auto dest: consistent_index)
  moreover from u have "(i, u) \<in> set (users s)" by (rule map_of_SomeD)
  then have "u \<in> set (getAll s)" by (force simp: getAll_def)
  ultimately show ?thesis by simp
qed

lemma findByUsername_taken:
  assumes "consistent s" and "u \<in> set (getAll s)"
    and "toLowerCase (username u) = toLowerCase name"
  shows "findByUsername s name \<noteq> None"
proof -
  from assms(2) obtain i where iu: "(i, u) \<in> set (users s)" by (auto simp: getAll_def)
  with assms(1) have ne: "i \<noteq> []"
    and idx: "map_of (usernameIndex s) (toLowerCase (username u)) = Some i"
    by (auto dest: consistent_user)
  from iu have "i \<in> fst ` set (users s)" by force
  then have "map_of (users s) i \<noteq> None" by (simp add: map_of_eq_None_iff)
  with ne idx assms(3) show ?thesis by (simp add: findByUsername_def)
qed

lemma join_fails_iff_name_taken:
  assumes "consistent s"
  shows "fst (join s i name r) = Inl \<lparr>message = ''Username is already taken'', code = USERNAME_TAKEN\<rparr>
         \<longleftrightarrow> (\<exists>u \<in> set (getAll s). toLowerCase (username u) = toLowerCase name)"
proof (cases "findByUsername s name")
  case None
  with assms have "\<not> (\<exists>u \<in> set (getAll s). toLowerCase (username u) = toLowerCase name)"
    by (auto dest: findByUsername_taken)
  with None show ?thesis by (simp add: join_def Let_def)
next
  case (Some u)
  with assms have "u \<in> set (getAll s) \<and> toLowerCase (username u) = toLowerCase name"
    by (rule findByUsername_Some)
  with Some show ?thesis by (auto simp: join_def)
qed

lemma join_failure_unchanged: "fst (join s i name r) = Inl e \<Longrightarrow> snd (join s i name r) = s"
  by (auto simp: join_def Let_def split: option.splits)

lemma consistent_emptyStore: "consistent emptyStore"
  by (simp add: consistent_def emptyStore_def)

lemma consistent_join:
  assumes c: "consistent s" and ne: "i \<noteq> []" and fresh: "getById s i = None"
  shows "consistent (snd (join s i name r))"
proof (cases "findByUsername s name")
  case (Some u)
  with c show ?thesis by (simp add: join_def)
next
  case None
  let ?u = "\<lparr>id' = i, username = name, room = r\<rparr>"
  let ?us = "AList.update i ?u (users s)"
  let ?ix = "AList.update (toLowerCase name) i (usernameIndex s)"
  from None have s': "snd (join s i name r) = s\<lparr>users := ?us, usernameIndex := ?ix\<rparr>"
    by (simp add: join_def Let_def add_def)
  from fresh have fr: "map_of (users s) i = None" by (simp add: getById_def findById_def)
  have u1: "j \<noteq> [] \<and> map_of ?ix (toLowerCase (username v)) = Some j"
    if "(j, v) \<in> set ?us" for j v
  proof (cases "(j, v) = (i, ?u)")
    case True
    with ne show ?thesis by (simp add: AList.update_conv')
  next
    case False
    with that set_update_subset [of i ?u "users s"] have old: "(j, v) \<in> set (users s)" by auto
    with c have j: "j \<noteq> []" "map_of (usernameIndex s) (toLowerCase (username v)) = Some j"
      by (auto dest: consistent_user)
    from old have "v \<in> set (getAll s)" by (force simp: getAll_def)
    with c None have "toLowerCase (username v) \<noteq> toLowerCase name"
      by (auto dest: findByUsername_taken)
    with j show ?thesis by (simp add: AList.update_conv')
  qed
  have u2: "\<exists>v. map_of ?us j = Some v \<and> toLowerCase (username v) = n"
    if "(n, j) \<in> set ?ix" for n j
  proof (cases "(n, j) = (toLowerCase name, i)")
    case True
    then show ?thesis by (simp add: AList.update_conv')
  next
    case False
    with that set_update_subset [of "toLowerCase name" i "usernameIndex s"]
    have "(n, j) \<in> set (usernameIndex s)" by auto
    with c obtain v where v: "map_of (users s) j = Some v" "toLowerCase (username v) = n"
      by (auto dest: consistent_index)
    with fr have "j \<noteq> i" by auto
    with v show ?thesis by (simp add: AList.update_conv')
  qed
  show ?thesis
    unfolding s' by (rule consistentI) (simp_all add: u1 u2)
qed

lemma consistent_leave:
  assumes c: "consistent s"
  shows "consistent (snd (leave s i))"
proof (cases "map_of (users s) i")
  case None
  with c show ?thesis by (simp add: leave_def removeUser_def)
next
  case (Some u)
  let ?k = "toLowerCase (username u)"
  let ?us = "AList.delete i (users s)"
  let ?ix = "AList.delete ?k (usernameIndex s)"
  from Some have s': "snd (leave s i) = s\<lparr>users := ?us, usernameIndex := ?ix\<rparr>"
    by (simp add: leave_def removeUser_def)
  from Some have "(i, u) \<in> set (users s)" by (rule map_of_SomeD)
  with c have iu: "map_of (usernameIndex s) ?k = Some i" by (auto dest: consistent_user)
  have u1: "j \<noteq> [] \<and> map_of ?ix (toLowerCase (username v)) = Some j"
    if "(j, v) \<in> set ?us" for j v
  proof -
    from that set_delete_subset [of i "users s"] have old: "(j, v) \<in> set (users s)" and ji: "j \<noteq> i"
      by auto
    with c have j: "j \<noteq> []" "map_of (usernameIndex s) (toLowerCase (username v)) = Some j"
      by (auto dest: consistent_user)
    with iu ji have "toLowerCase (username v) \<noteq> ?k" by auto
    with j show ?thesis by (simp add: AList.delete_conv')
  qed
  have u2: "\<exists>v. map_of ?us j = Some v \<and> toLowerCase (username v) = n"
    if "(n, j) \<in> set ?ix" for n j
  proof -
    from that set_delete_subset [of ?k "usernameIndex s"]
    have old: "(n, j) \<in> set (usernameIndex s)" and nk: "n \<noteq> ?k" by auto
    with c obtain v where v: "map_of (users s) j = Some v" "toLowerCase (username v) = n"
      by (auto dest: consistent_index)
    with Some nk have "j \<noteq> i" by auto
    with v show ?thesis by (simp add: AList.delete_conv')
  qed
  show ?thesis
    unfolding s' by (rule consistentI) (simp_all add: u1 u2)
qed

section \<open>The name index after a second join from a registered connection\<close>

text \<open>
  C1. \<open>join\<close> is claimed to fail with \<open>USERNAME_TAKEN\<close> exactly when an active user has
  the same name up to case. After connection \<open>c1\<close> joins as \<open>alice\<close> and joins again as
  \<open>bob\<close>, the only active user is \<open>bob\<close>, and yet the join of \<open>c2\<close> as \<open>alice\<close> fails
  with \<open>USERNAME_TAKEN\<close>: the index still maps \<open>alice\<close> to \<open>c1\<close>.
\<close>

theorem join_rejects_unused_name:
  "join (snd (join (snd (join emptyStore ''c1'' ''alice'' ''general'')) ''c1'' ''bob'' ''general''))
     ''c2'' ''alice'' ''general''
   = (Inl \<lparr>message = ''Username is already taken'', code = USERNAME_TAKEN\<rparr>,
      \<lparr>users = [(''c1'', \<lparr>id' = ''c1'', username = ''bob'', room = ''general''\<rparr>)],
       usernameIndex = [(''alice'', ''c1''), (''bob'', ''c1'')]\<rparr>)"
  by code_simp

text \<open>
  C2. The name index is claimed to stay consistent with the user table in every state
  reached by joins and leaves, a second join from a registered connection included.
  After connection \<open>c1\<close> joins as \<open>alice\<close> and joins again as \<open>bob\<close>, the only active
  user is \<open>bob\<close>, but \<open>getByUsername\<close> for \<open>alice\<close> returns the user \<open>bob\<close> and
  \<open>isUsernameAvailable\<close> for \<open>alice\<close> is false.
\<close>

theorem stale_name_index_after_rejoin:
  "getAll (snd (join (snd (join emptyStore ''c1'' ''alice'' ''general'')) ''c1'' ''bob'' ''general''))
     = [\<lparr>id' = ''c1'', username = ''bob'', room = ''general''\<rparr>]
   \<and> getByUsername (snd (join (snd (join emptyStore ''c1'' ''alice'' ''general'')) ''c1'' ''bob'' ''general'')) ''alice''
     = Some \<lparr>id' = ''c1'', username = ''bob'', room = ''general''\<rparr>
   \<and> isUsernameAvailable (snd (join (snd (join emptyStore ''c1'' ''alice'' ''general'')) ''c1'' ''bob'' ''general'')) ''alice''
     = False"
  by code_simp

end
